theory Spec2Isabelle
  imports Main "HOL-Library.Sublist" "HOL-Library.AList"
begin


section \<open>Python strings\<close>

text \<open>
  A Python \<open>str\<close> is modelled by a \<open>string\<close> that holds its UTF-8 encoding; for ASCII
  text this is the text itself, one \<open>char\<close> per character. Searching, splitting, replacing
  and concatenating at ASCII delimiters commute with the encoding. Case mapping, whitespace
  trimming and lengths are exact on ASCII text only, so statements that rest on them carry
  the premise \<open>isascii\<close>.
\<close>

definition isascii :: "string \<Rightarrow> bool" where
  "isascii s = list_all (\<lambda>c. (of_char c :: nat) < 128) s"

definition lower_char :: "char \<Rightarrow> char" where
  "lower_char c =
     (let n = (of_char c :: nat) in if 65 \<le> n \<and> n \<le> 90 then char_of (n + 32) else c)"

definition lower :: "string \<Rightarrow> string" where
  "lower s = map lower_char s"

definition upper_char :: "char \<Rightarrow> char" where
  "upper_char c =
     (let n = (of_char c :: nat) in if 97 \<le> n \<and> n \<le> 122 then char_of (n - 32) else c)"

text \<open>\<open>s.capitalize()\<close>: first character upper case, the rest lower case.\<close>

definition capitalize :: "string \<Rightarrow> string" where
  "capitalize s = (case s of [] \<Rightarrow> [] | c # cs \<Rightarrow> upper_char c # lower cs)"

definition is_alpha :: "char \<Rightarrow> bool" where
  "is_alpha c = (let n = (of_char c :: nat) in (65 \<le> n \<and> n \<le> 90) \<or> (97 \<le> n \<and> n \<le> 122))"

definition is_digit :: "char \<Rightarrow> bool" where
  "is_digit c = (let n = (of_char c :: nat) in 48 \<le> n \<and> n \<le> 57)"

definition is_hex :: "char \<Rightarrow> bool" where
  "is_hex c = (let n = (of_char c :: nat) in
     (48 \<le> n \<and> n \<le> 57) \<or> (65 \<le> n \<and> n \<le> 70) \<or> (97 \<le> n \<and> n \<le> 102))"

text \<open>\<open>s.find(c)\<close> for a one-character needle: the index of its first occurrence, or
  \<open>None\<close> where Python returns \<open>-1\<close>.\<close>

definition find_char :: "char \<Rightarrow> string \<Rightarrow> nat option" where
  "find_char c s = (if c \<in> set s then Some (length (takeWhile (\<lambda>x. x \<noteq> c) s)) else None)"

text \<open>\<open>s.find(c, start)\<close> and \<open>s.rfind(c)\<close>.\<close>

definition find_char_from :: "char \<Rightarrow> nat \<Rightarrow> string \<Rightarrow> nat option" where
  "find_char_from c start s = map_option (\<lambda>i. start + i) (find_char c (drop start s))"

definition rfind_char :: "char \<Rightarrow> string \<Rightarrow> nat option" where
  "rfind_char c s =
     (if c \<in> set s then Some (length s - 1 - length (takeWhile (\<lambda>x. x \<noteq> c) (rev s))) else None)"

text \<open>\<open>s.replace(old, new)\<close> for a non-empty \<open>old\<close>: occurrences are replaced from the
  left and do not overlap.\<close>

fun replace :: "string \<Rightarrow> string \<Rightarrow> string \<Rightarrow> string" where
  "replace old new [] = []"
| "replace old new (c # cs) =
     (if old \<noteq> [] \<and> prefix old (c # cs)
      then new @ replace old new (drop (length old - 1) cs)
      else c # replace old new cs)"

text \<open>\<open>s.split(sep)\<close> for a one-character separator, and \<open>sep.join(parts)\<close>.\<close>

fun split_char :: "char \<Rightarrow> string \<Rightarrow> string list" where
  "split_char sep [] = [[]]"
| "split_char sep (c # cs) =
     (if c = sep then [] # split_char sep cs
      else (case split_char sep cs of [] \<Rightarrow> [[c]] | p # ps \<Rightarrow> (c # p) # ps))"

fun join :: "string \<Rightarrow> string list \<Rightarrow> string" where
  "join sep [] = []"
| "join sep [p] = p"
| "join sep (p # q # ps) = p @ sep @ join sep (q # ps)"

text \<open>\<open>s.split(c, 1)\<close> where \<open>c\<close> occurs in \<open>s\<close>, and \<open>s.partition(c)\<close>: the text before the
  first \<open>c\<close> and the text after it.\<close>

definition before_char :: "char \<Rightarrow> string \<Rightarrow> string" where
  "before_char c s = takeWhile (\<lambda>x. x \<noteq> c) s"

definition after_char :: "char \<Rightarrow> string \<Rightarrow> string" where
  "after_char c s = drop 1 (dropWhile (\<lambda>x. x \<noteq> c) s)"

definition lstrip :: "(char \<Rightarrow> bool) \<Rightarrow> string \<Rightarrow> string" where
  "lstrip P s = dropWhile P s"

definition rstrip :: "(char \<Rightarrow> bool) \<Rightarrow> string \<Rightarrow> string" where
  "rstrip P s = rev (dropWhile P (rev s))"

definition strip :: "(char \<Rightarrow> bool) \<Rightarrow> string \<Rightarrow> string" where
  "strip P s = rstrip P (lstrip P s)"

text \<open>The characters \<open>str.strip()\<close> removes when called without an argument (ASCII
  whitespace), and Python's slice \<open>xs[:n]\<close>, which drops from the end for a negative \<open>n\<close>.\<close>

definition is_space :: "char \<Rightarrow> bool" where
  "is_space c = (let n = (of_char c :: nat) in n = 32 \<or> (9 \<le> n \<and> n \<le> 13) \<or> (28 \<le> n \<and> n \<le> 31))"

definition slice_to :: "int \<Rightarrow> 'a list \<Rightarrow> 'a list" where
  "slice_to n xs = (if 0 \<le> n then take (nat n) xs else take (length xs - nat (- n)) xs)"

section \<open>Exceptions\<close>

text \<open>
  An exception is a value; a function that may raise returns \<open>exn + 'a\<close> with \<open>Inl\<close> for the
  raised exception. Exceptions raised by the collaborators (HTTP fetch, search provider,
  generative backend, storage backend) carry the text the collaborator gave them.
\<close>

datatype exn =
    ValueError
  | JSONDecodeError
  | AttributeError
  | TypeError
  | KeyError
  | RequestException string
  | ProviderError string
  | BackendError string
  | DuplicateKey

section \<open>\<open>ipaddress\<close>: validity of IP literals\<close>

text \<open>
  \<open>urllib.parse\<close> (CPython 3.11) validates a bracketed host with \<open>ipaddress.ip_address\<close>.
  Only acceptance matters there, so the model decides validity and does not compute the
  address.
\<close>

definition digits_value :: "string \<Rightarrow> nat" where
  "digits_value s = foldl (\<lambda>a c. 10 * a + (of_char c - 48)) 0 s"

definition parse_octet_ok :: "string \<Rightarrow> bool" where
  "parse_octet_ok s \<longleftrightarrow>
     s \<noteq> [] \<and> list_all is_digit s \<and> length s \<le> 3 \<and>
     \<not> (s \<noteq> ''0'' \<and> hd s = CHR ''0'') \<and> digits_value s \<le> 255"

definition ipv4_ok :: "string \<Rightarrow> bool" where
  "ipv4_ok s \<longleftrightarrow>
     CHR ''/'' \<notin> set s \<and> s \<noteq> [] \<and>
     (let octets = split_char CHR ''.'' s in length octets = 4 \<and> list_all parse_octet_ok octets)"

definition parse_hextet_ok :: "string \<Rightarrow> bool" where
  "parse_hextet_ok s \<longleftrightarrow> list_all is_hex s \<and> length s \<le> 4 \<and> s \<noteq> []"

text \<open>\<open>_BaseV6._ip_int_from_string\<close>: an IPv4 suffix is replaced by two hextets (always
  valid ones, written \<open>''0''\<close> here), then the position of \<open>::\<close> decides which parts must be
  hextets.\<close>

definition ipv6_parts_ok :: "string list \<Rightarrow> bool" where
  "ipv6_parts_ok parts0 \<longleftrightarrow>
     3 \<le> length parts0 \<and>
     (CHR ''.'' \<in> set (last parts0) \<longrightarrow> ipv4_ok (last parts0)) \<and>
     (let parts = (if CHR ''.'' \<in> set (last parts0) then butlast parts0 @ [''0'', ''0''] else parts0);
          n = length parts;
          skips = filter (\<lambda>i. parts ! i = []) [1 ..< n - 1]
      in n \<le> 9 \<and> length skips \<le> 1 \<and>
         (case skips of
            [] \<Rightarrow> n = 8 \<and> hd parts \<noteq> [] \<and> last parts \<noteq> [] \<and> list_all parse_hextet_ok parts
          | i # _ \<Rightarrow>
              (let hi0 = i; lo0 = n - i - 1;
                   hi = (if hd parts = [] then hi0 - 1 else hi0);
                   lo = (if last parts = [] then lo0 - 1 else lo0)
               in (hd parts = [] \<longrightarrow> hi = 0) \<and> (last parts = [] \<longrightarrow> lo = 0) \<and>
                  1 \<le> (8::int) - int (hi + lo) \<and>
                  list_all parse_hextet_ok (take hi parts) \<and>
                  list_all parse_hextet_ok (drop (n - lo) parts))))"

definition ipv6_ok :: "string \<Rightarrow> bool" where
  "ipv6_ok s \<longleftrightarrow>
     CHR ''/'' \<notin> set s \<and>
     (CHR ''%'' \<in> set s \<longrightarrow>
        after_char CHR ''%'' s \<noteq> [] \<and> CHR ''%'' \<notin> set (after_char CHR ''%'' s)) \<and>
     before_char CHR ''%'' s \<noteq> [] \<and>
     ipv6_parts_ok (split_char CHR '':'' (before_char CHR ''%'' s))"

section \<open>\<open>urllib.parse\<close>\<close>

text \<open>
  \<open>urlparse\<close>, \<open>urlsplit\<close>, \<open>urlunparse\<close> and \<open>urljoin\<close> of the standard library, as in
  CPython 3.11 (\<open>Lib/urllib/parse.py\<close>), for \<open>str\<close> arguments and \<open>allow_fragments=True\<close>.
  For non-ASCII hosts \<open>_checknetloc\<close> consults Unicode normalisation tables; it returns at
  once for an ASCII host, which is the case modelled.
\<close>

definition uses_relative :: "string list" where
  "uses_relative = ['''', ''ftp'', ''http'', ''gopher'', ''nntp'', ''imap'',
     ''wais'', ''file'', ''https'', ''shttp'', ''mms'',
     ''prospero'', ''rtsp'', ''rtsps'', ''rtspu'', ''sftp'',
     ''svn'', ''svn+ssh'', ''ws'', ''wss'']"

definition uses_netloc :: "string list" where
  "uses_netloc = ['''', ''ftp'', ''http'', ''gopher'', ''nntp'', ''telnet'',
     ''imap'', ''wais'', ''file'', ''mms'', ''https'', ''shttp'',
     ''snews'', ''prospero'', ''rtsp'', ''rtsps'', ''rtspu'', ''rsync'',
     ''svn'', ''svn+ssh'', ''sftp'', ''nfs'', ''git'', ''git+ssh'',
     ''ws'', ''wss'']"

definition uses_params :: "string list" where
  "uses_params = ['''', ''ftp'', ''hdl'', ''prospero'', ''http'', ''imap'',
     ''https'', ''shttp'', ''rtsp'', ''rtsps'', ''rtspu'', ''sip'',
     ''sips'', ''mms'', ''sftp'', ''tel'']"

definition scheme_char :: "char \<Rightarrow> bool" where
  "scheme_char c \<longleftrightarrow> is_alpha c \<or> is_digit c \<or> c \<in> set ''+-.''"

definition c0_control_or_space :: "char \<Rightarrow> bool" where
  "c0_control_or_space c \<longleftrightarrow> (of_char c :: nat) \<le> 32"

definition unsafe_url_byte :: "char \<Rightarrow> bool" where
  "unsafe_url_byte c \<longleftrightarrow> c = CHR 0x09 \<or> c = CHR 0x0D \<or> c = CHR 0x0A"

definition remove_unsafe :: "string \<Rightarrow> string" where
  "remove_unsafe s = replace [CHR 0x0A] [] (replace [CHR 0x0D] [] (replace [CHR 0x09] [] s))"

record split_result =
  scheme :: string
  netloc :: string
  path :: string
  query :: string
  fragment :: string

record parse_result = split_result +
  params :: string

text \<open>\<open>_splitnetloc(url, 2)\<close>: the authority runs from index 2 to the first of \<open>/?#\<close>.\<close>

definition netloc_delim :: "char \<Rightarrow> bool" where
  "netloc_delim c \<longleftrightarrow> c = CHR ''/'' \<or> c = CHR ''?'' \<or> c = CHR ''#''"

definition splitnetloc :: "string \<Rightarrow> string \<times> string" where
  "splitnetloc url =
     (takeWhile (\<lambda>c. \<not> netloc_delim c) (drop 2 url),
      dropWhile (\<lambda>c. \<not> netloc_delim c) (drop 2 url))"

text \<open>\<open>_check_bracketed_host\<close>: an IPvFuture literal must match
  \<^verbatim>\<open>\Av[a-fA-F0-9]+\..+\Z\<close>; anything else must be an IPv6 address.\<close>

definition ipvfuture_ok :: "string \<Rightarrow> bool" where
  "ipvfuture_ok host \<longleftrightarrow>
     (let r = tl host; h = takeWhile is_hex r; t = dropWhile is_hex r
      in h \<noteq> [] \<and> take 1 t = ''.'' \<and> drop 1 t \<noteq> [] \<and> CHR 0x0A \<notin> set (drop 1 t))"

definition check_bracketed_host :: "string \<Rightarrow> bool" where
  "check_bracketed_host hostname \<longleftrightarrow>
     (if take 1 hostname = ''v'' then ipvfuture_ok hostname
      else \<not> ipv4_ok hostname \<and> ipv6_ok hostname)"

text \<open>The two bracket checks of \<open>urlsplit\<close> on the authority; \<open>False\<close> is
  \<open>ValueError\<close>.\<close>

definition netloc_ok :: "string \<Rightarrow> bool" where
  "netloc_ok nl \<longleftrightarrow>
     (let ob = CHR ''['' \<in> set nl; cb = CHR '']'' \<in> set nl
      in \<not> ((ob \<and> \<not> cb) \<or> (cb \<and> \<not> ob)) \<and>
         (ob \<and> cb \<longrightarrow> check_bracketed_host (before_char CHR '']'' (after_char CHR ''['' nl))))"

text \<open>The scheme is the text before the first \<open>:\<close> when that text starts with a letter and
  holds scheme characters only.\<close>

definition split_scheme :: "string \<Rightarrow> string \<Rightarrow> string \<times> string" where
  "split_scheme dflt url =
     (case find_char CHR '':'' url of
        None \<Rightarrow> (dflt, url)
      | Some i \<Rightarrow>
          if 0 < i \<and> is_alpha (hd url) \<and> list_all scheme_char (take i url)
          then (lower (take i url), drop (i + 1) url)
          else (dflt, url))"

definition split_fragment_query :: "string \<Rightarrow> string \<times> string \<times> string" where
  "split_fragment_query url =
     (let (u1, frag) = (if CHR ''#'' \<in> set url
                        then (before_char CHR ''#'' url, after_char CHR ''#'' url) else (url, []));
          (u2, qry) = (if CHR ''?'' \<in> set u1
                       then (before_char CHR ''?'' u1, after_char CHR ''?'' u1) else (u1, []))
      in (u2, qry, frag))"

definition urlsplit :: "string \<Rightarrow> string \<Rightarrow> exn + split_result" where
  "urlsplit url0 scheme0 =
     (let url1 = remove_unsafe (lstrip c0_control_or_space url0);
          dflt = remove_unsafe (strip c0_control_or_space scheme0);
          (sch, url2) = split_scheme dflt url1
      in if take 2 url2 = ''//''
         then (let (nl, url3) = splitnetloc url2
               in if \<not> netloc_ok nl then Inl ValueError
                  else (let (p, q, f) = split_fragment_query url3
                        in Inr \<lparr>scheme = sch, netloc = nl, path = p, query = q, fragment = f\<rparr>))
         else (let (p, q, f) = split_fragment_query url2
               in Inr \<lparr>scheme = sch, netloc = [], path = p, query = q, fragment = f\<rparr>))"

text \<open>\<open>_splitparams\<close>: the parameters follow the first \<open>;\<close> of the last path segment.\<close>

definition splitparams :: "string \<Rightarrow> string \<times> string" where
  "splitparams url =
     (case (if CHR ''/'' \<in> set url
            then find_char_from CHR '';'' (the (rfind_char CHR ''/'' url)) url
            else find_char CHR '';'' url) of
        None \<Rightarrow> (url, [])
      | Some i \<Rightarrow> (take i url, drop (i + 1) url))"

definition urlparse_with :: "string \<Rightarrow> string \<Rightarrow> exn + parse_result" where
  "urlparse_with url scheme0 =
     (case urlsplit url scheme0 of
        Inl e \<Rightarrow> Inl e
      | Inr r \<Rightarrow>
          (let (p, ps) = (if scheme r \<in> set uses_params \<and> CHR '';'' \<in> set (path r)
                          then splitparams (path r) else (path r, []))
           in Inr \<lparr>scheme = scheme r, netloc = netloc r, path = p, query = query r,
                   fragment = fragment r, params = ps\<rparr>))"

definition urlparse :: "string \<Rightarrow> exn + parse_result" where
  "urlparse url = urlparse_with url []"

section \<open>Profile Store: URL normalisation\<close>

text \<open>\<open>SupabaseManager._normalize_url\<close> (\<open>src/models/database.py\<close>).\<close>

definition normalize_url :: "string \<Rightarrow> exn + string" where
  "normalize_url url =
     (case urlparse (lower url) of
        Inl e \<Rightarrow> Inl e
      | Inr parsed \<Rightarrow>
          (let nl = replace ''www.'' [] (netloc parsed);
               sch = (if scheme parsed \<in> set [''http'', ''https''] then ''https'' else scheme parsed)
           in Inr (rstrip (\<lambda>c. c = CHR ''/'') (sch @ ''://'' @ nl @ path parsed))))"

section \<open>Values\<close>

text \<open>
  The values that travel through the pipeline (what \<open>json.loads\<close> returns, what the
  dictionaries hold, what is stored) are JSON-like. A \<open>float\<close> is kept as the text it was
  read from, and a \<open>dict\<close> is the list of its items in insertion order, with distinct keys.
\<close>

datatype json =
    JNull
  | JBool bool
  | JInt int
  | JFloat string
  | JStr string
  | JArr "json list"
  | JObj "(string \<times> json) list"

type_synonym pydict = "(string \<times> json) list"

text \<open>\<open>dict(pairs)\<close> and a dictionary display: a later item with a key already present
  replaces the value and keeps the key's position.\<close>

definition dict :: "(string \<times> json) list \<Rightarrow> pydict" where
  "dict pairs = foldl (\<lambda>d (k, v). AList.update k v d) [] pairs"


section \<open>Profile Store\<close>

text \<open>
  The storage backend is one table \<open>company_profiles\<close> whose column \<open>website_url\<close> is
  \<open>UNIQUE\<close> (\<open>create_table_if_not_exists\<close>). Its state is the list of stored rows and
  whether it can be reached: \<open>fault = Some text\<close> makes every request raise with that text.
\<close>

record store =
  rows :: "pydict list"
  fault :: "string option"

text \<open>\<open>table.select(...).eq("website_url", key).execute().data\<close>\<close>

definition select_eq :: "store \<Rightarrow> string \<Rightarrow> exn + pydict list" where
  "select_eq st key =
     (case fault st of
        Some text \<Rightarrow> Inl (BackendError text)
      | None \<Rightarrow> Inr (filter (\<lambda>r. map_of r ''website_url'' = Some (JStr key)) (rows st)))"


text \<open>\<open>SupabaseManager.check_company_exists\<close>: every exception is swallowed.\<close>

definition check_company_exists :: "store \<Rightarrow> string \<Rightarrow> bool" where
  "check_company_exists st website_url =
     (case normalize_url website_url of
        Inl e \<Rightarrow> False
      | Inr normalized_url \<Rightarrow>
          (case select_eq st normalized_url of
             Inl e \<Rightarrow> False
           | Inr data \<Rightarrow> 0 < length data))"



section \<open>\<open>json.loads\<close>\<close>

text \<open>
  \<open>json.loads\<close> with its default arguments, as in CPython 3.11 (\<open>Lib/json/decoder.py\<close>,
  \<open>Lib/json/scanner.py\<close>, with the strict \<open>\uXXXX\<close> reading of the C accelerator that CPython
  uses). A failure to decode is \<open>JSONDecodeError\<close>. The decoder works on the remaining text
  instead of an index into the document. The interpreter's limits (recursion depth, digits of
  an integer literal) are not part of the model.
\<close>

datatype 'a scan = Ok 'a | DecodeError | Exhausted

definition ws_char :: "char \<Rightarrow> bool" where
  "ws_char c \<longleftrightarrow> c = CHR '' '' \<or> c = CHR 0x09 \<or> c = CHR 0x0A \<or> c = CHR 0x0D"

definition skip_ws :: "string \<Rightarrow> string" where
  "skip_ws s = dropWhile ws_char s"

definition hex_value :: "char \<Rightarrow> nat" where
  "hex_value c = (let n = (of_char c :: nat) in
     if n \<le> 57 then n - 48 else if n \<le> 70 then n - 55 else n - 87)"

text \<open>\<open>_decode_uXXXX\<close>: four hexadecimal digits.\<close>

definition decode_uXXXX :: "string \<Rightarrow> nat option" where
  "decode_uXXXX s =
     (if length (take 4 s) = 4 \<and> list_all is_hex (take 4 s)
      then Some (foldl (\<lambda>a c. 16 * a + hex_value c) 0 (take 4 s)) else None)"

text \<open>\<open>chr(uni)\<close>, in UTF-8.\<close>

definition utf8 :: "nat \<Rightarrow> string" where
  "utf8 n =
     (if n < 0x80 then [char_of n]
      else if n < 0x800 then [char_of (0xC0 + n div 64), char_of (0x80 + n mod 64)]
      else if n < 0x10000
        then [char_of (0xE0 + n div 4096), char_of (0x80 + n div 64 mod 64), char_of (0x80 + n mod 64)]
      else [char_of (0xF0 + n div 262144), char_of (0x80 + n div 4096 mod 64),
            char_of (0x80 + n div 64 mod 64), char_of (0x80 + n mod 64)])"

definition backslash :: "char \<Rightarrow> char option" where
  "backslash e =
     (if e = CHR 0x22 then Some (CHR 0x22)
      else if e = CHR 0x5C then Some (CHR 0x5C)
      else if e = CHR ''/'' then Some (CHR ''/'')
      else if e = CHR ''b'' then Some (CHR 0x08)
      else if e = CHR ''f'' then Some (CHR 0x0C)
      else if e = CHR ''n'' then Some (CHR 0x0A)
      else if e = CHR ''r'' then Some (CHR 0x0D)
      else if e = CHR ''t'' then Some (CHR 0x09)
      else None)"

definition prepend :: "string \<Rightarrow> (string \<times> string) option \<Rightarrow> (string \<times> string) option" where
  "prepend chunk r = map_option (\<lambda>(v, rest). (chunk @ v, rest)) r"

text \<open>\<open>scanstring\<close> on the text after the opening quote: the decoded string and the text
  after the closing quote. A literal control character is refused (\<open>strict=True\<close>); a high
  surrogate followed by an escaped low surrogate is one character.\<close>

fun scanstring :: "string \<Rightarrow> (string \<times> string) option" where
  "scanstring [] = None"
| "scanstring (c # cs) =
     (if c = CHR 0x22 then Some ([], cs)
      else if c = CHR 0x5C then
        (case cs of
           [] \<Rightarrow> None
         | e # es \<Rightarrow>
             if e = CHR ''u'' then
               (case decode_uXXXX es of
                  None \<Rightarrow> None
                | Some uni \<Rightarrow>
                    if 0xD800 \<le> uni \<and> uni \<le> 0xDBFF \<and> take 2 (drop 4 es) = [CHR 0x5C, CHR ''u'']
                    then (case decode_uXXXX (drop 6 es) of
                            None \<Rightarrow> None
                          | Some uni2 \<Rightarrow>
                              if 0xDC00 \<le> uni2 \<and> uni2 \<le> 0xDFFF
                              then prepend (utf8 (0x10000 + ((uni - 0xD800) * 1024 + (uni2 - 0xDC00))))
                                     (scanstring (drop 10 es))
                              else prepend (utf8 uni) (scanstring (drop 4 es)))
                    else prepend (utf8 uni) (scanstring (drop 4 es)))
             else (case backslash e of
                     None \<Rightarrow> None
                   | Some ch \<Rightarrow> prepend [ch] (scanstring es)))
      else if (of_char c :: nat) < 0x20 then None
      else prepend [c] (scanstring cs))"

text \<open>\<open>NUMBER_RE.match\<close>:
  \<^verbatim>\<open>(-?(?:0|[1-9]\d*))(\.\d+)?([eE][-+]?\d+)?\<close>. The three groups and the text after the
  match.\<close>

definition match_integer :: "string \<Rightarrow> (string \<times> string) option" where
  "match_integer s =
     (let (sign, s1) = (if take 1 s = ''-'' then (''-'', drop 1 s) else ([], s))
      in case s1 of
           [] \<Rightarrow> None
         | d # r \<Rightarrow>
             if d = CHR ''0'' then Some (sign @ [d], r)
             else if is_digit d
               then Some (sign @ d # takeWhile is_digit r, dropWhile is_digit r)
             else None)"

definition match_frac :: "string \<Rightarrow> string \<times> string" where
  "match_frac s =
     (if take 1 s = ''.'' \<and> takeWhile is_digit (drop 1 s) \<noteq> []
      then (CHR ''.'' # takeWhile is_digit (drop 1 s), dropWhile is_digit (drop 1 s))
      else ([], s))"

definition match_exp :: "string \<Rightarrow> string \<times> string" where
  "match_exp s =
     (if take 1 s = ''e'' \<or> take 1 s = ''E'' then
        (let s1 = drop 1 s;
             (sign, s2) = (if take 1 s1 = ''-'' \<or> take 1 s1 = ''+'' then (take 1 s1, drop 1 s1)
                           else ([], s1))
         in if takeWhile is_digit s2 \<noteq> []
            then (take 1 s @ sign @ takeWhile is_digit s2, dropWhile is_digit s2)
            else ([], s))
      else ([], s))"

text \<open>\<open>int(integer)\<close> for a matched integer group.\<close>

definition int_of_literal :: "string \<Rightarrow> int" where
  "int_of_literal s =
     (if take 1 s = ''-'' then - int (digits_value (drop 1 s)) else int (digits_value s))"

definition match_number :: "string \<Rightarrow> (json \<times> string) option" where
  "match_number s =
     (case match_integer s of
        None \<Rightarrow> None
      | Some (integer, r1) \<Rightarrow>
          (let (frac, r2) = match_frac r1; (exp, r3) = match_exp r2
           in if frac \<noteq> [] \<or> exp \<noteq> [] then Some (JFloat (integer @ frac @ exp), r3)
              else Some (JInt (int_of_literal integer), r3)))"

text \<open>\<open>scan_once\<close>, \<open>JSONObject\<close> and \<open>JSONArray\<close>. The first argument bounds the number of
  nested calls, so that the recursion is structural; \<open>json_loads\<close> below passes a bound that
  is never reached. \<open>json_object\<close> starts after the opening quote of a key and \<open>json_array\<close>
  at a value, each with the items read so far.\<close>

fun scan_once :: "nat \<Rightarrow> string \<Rightarrow> (json \<times> string) scan"
  and json_object :: "nat \<Rightarrow> string \<Rightarrow> (string \<times> json) list \<Rightarrow> (json \<times> string) scan"
  and json_array :: "nat \<Rightarrow> string \<Rightarrow> json list \<Rightarrow> (json \<times> string) scan"
where
  "scan_once 0 s = Exhausted"
| "scan_once (Suc n) s =
     (case s of
        [] \<Rightarrow> DecodeError
      | c # cs \<Rightarrow>
          if c = CHR 0x22 then
            (case scanstring cs of None \<Rightarrow> DecodeError | Some (v, r) \<Rightarrow> Ok (JStr v, r))
          else if c = CHR ''{'' then
            (case skip_ws cs of
               [] \<Rightarrow> DecodeError
             | d # r \<Rightarrow>
                 if d = CHR ''}'' then Ok (JObj [], r)
                 else if d = CHR 0x22 then json_object n r []
                 else DecodeError)
          else if c = CHR ''['' then
            (if take 1 (skip_ws cs) = '']'' then Ok (JArr [], drop 1 (skip_ws cs))
             else json_array n (skip_ws cs) [])
          else if take 4 s = ''null'' then Ok (JNull, drop 4 s)
          else if take 4 s = ''true'' then Ok (JBool True, drop 4 s)
          else if take 5 s = ''false'' then Ok (JBool False, drop 5 s)
          else (case match_number s of
                  Some (v, r) \<Rightarrow> Ok (v, r)
                | None \<Rightarrow>
                    if take 3 s = ''NaN'' then Ok (JFloat ''NaN'', drop 3 s)
                    else if take 8 s = ''Infinity'' then Ok (JFloat ''Infinity'', drop 8 s)
                    else if take 9 s = ''-Infinity'' then Ok (JFloat ''-Infinity'', drop 9 s)
                    else DecodeError))"
| "json_object 0 s pairs = Exhausted"
| "json_object (Suc n) s pairs =
     (case scanstring s of
        None \<Rightarrow> DecodeError
      | Some (key, r) \<Rightarrow>
          if take 1 (skip_ws r) \<noteq> '':'' then DecodeError
          else (case scan_once n (skip_ws (drop 1 (skip_ws r))) of
                  Exhausted \<Rightarrow> Exhausted
                | DecodeError \<Rightarrow> DecodeError
                | Ok (v, r2) \<Rightarrow>
                    if take 1 (skip_ws r2) = ''}''
                    then Ok (JObj (dict (pairs @ [(key, v)])), drop 1 (skip_ws r2))
                    else if take 1 (skip_ws r2) \<noteq> '','' then DecodeError
                    else if take 1 (skip_ws (drop 1 (skip_ws r2))) \<noteq> [CHR 0x22] then DecodeError
                    else json_object n (drop 1 (skip_ws (drop 1 (skip_ws r2)))) (pairs @ [(key, v)])))"
| "json_array 0 s vals = Exhausted"
| "json_array (Suc n) s vals =
     (case scan_once n s of
        Exhausted \<Rightarrow> Exhausted
      | DecodeError \<Rightarrow> DecodeError
      | Ok (v, r) \<Rightarrow>
          if take 1 (skip_ws r) = '']'' then Ok (JArr (vals @ [v]), drop 1 (skip_ws r))
          else if take 1 (skip_ws r) \<noteq> '','' then DecodeError
          else json_array n (skip_ws (drop 1 (skip_ws r))) (vals @ [v]))"

text \<open>\<open>JSONDecoder.decode\<close> behind \<open>json.loads\<close>: a document that starts with a byte order
  mark is refused, and only whitespace may follow the value.\<close>

definition json_loads :: "string \<Rightarrow> exn + json" where
  "json_loads s =
     (if take 3 s = [CHR 0xEF, CHR 0xBB, CHR 0xBF] then Inl JSONDecodeError
      else (case scan_once (2 * length s + 1) (skip_ws s) of
              Ok (obj, r) \<Rightarrow> if skip_ws r = [] then Inr obj else Inl JSONDecodeError
            | DecodeError \<Rightarrow> Inl JSONDecodeError
            | Exhausted \<Rightarrow> Inl JSONDecodeError))"

section \<open>Insight Generator: parsing the response\<close>

text \<open>The default structure of \<open>GeminiAnalyzer._parse_response\<close>
  (\<open>src/tools/gemini_analyzer.py\<close>).\<close>

definition placeholder_insight :: json where
  "placeholder_insight = JObj [
     (''company_summary'', JStr ''Unable to generate summary''),
     (''industry_category'', JStr ''Unknown''),
     (''target_audience'', JStr ''Unknown''),
     (''key_problems_solved'', JArr []),
     (''potential_competitors'', JArr []),
     (''news_summary'', JStr ''Unable to summarize news'')]"

text \<open>\<open>str.find\<close> and \<open>str.rfind\<close> with Python's \<open>-1\<close>, and the slice \<open>s[i:j]\<close> for
  \<open>0 \<le> i\<close>, \<open>0 \<le> j\<close>.\<close>

definition index_or_minus1 :: "nat option \<Rightarrow> int" where
  "index_or_minus1 r = (case r of None \<Rightarrow> - 1 | Some i \<Rightarrow> int i)"

definition slice :: "int \<Rightarrow> int \<Rightarrow> string \<Rightarrow> string" where
  "slice i j s = take (nat (j - i)) (drop (nat i) s)"

text \<open>\<open>GeminiAnalyzer._parse_response\<close>: only \<open>json.JSONDecodeError\<close> is caught.\<close>

definition parse_response :: "string \<Rightarrow> exn + json" where
  "parse_response response_text =
     (let start_idx = index_or_minus1 (find_char CHR ''{'' response_text);
          end_idx = index_or_minus1 (rfind_char CHR ''}'' response_text) + 1
      in case (if start_idx \<noteq> - 1 \<and> end_idx > start_idx
               then json_loads (slice start_idx end_idx response_text)
               else json_loads response_text) of
           Inl JSONDecodeError \<Rightarrow> Inr placeholder_insight
         | Inl e \<Rightarrow> Inl e
         | Inr v \<Rightarrow> Inr v)"

section \<open>Auxiliary notions for the proofs\<close>

text \<open>A string without upper-case ASCII letters.\<close>

definition is_lower :: "string \<Rightarrow> bool" where
  "is_lower s \<longleftrightarrow> (\<forall>c\<in>set s. lower_char c = c)"

text \<open>The stages of \<open>urlsplit\<close> and \<open>urlparse\<close> on a URL without default scheme: the text
  after stripping, the scheme and what follows it, the authority, and the path.\<close>

definition prep :: "string \<Rightarrow> string" where
  "prep u = remove_unsafe (lstrip c0_control_or_space u)"

definition url_scheme :: "string \<Rightarrow> string" where
  "url_scheme u = fst (split_scheme [] (prep u))"

definition url_rest :: "string \<Rightarrow> string" where
  "url_rest u = snd (split_scheme [] (prep u))"

definition url_netloc :: "string \<Rightarrow> string" where
  "url_netloc u = (if take 2 (url_rest u) = ''//'' then fst (splitnetloc (url_rest u)) else [])"

definition url_tail :: "string \<Rightarrow> string" where
  "url_tail u = (if take 2 (url_rest u) = ''//'' then snd (splitnetloc (url_rest u)) else url_rest u)"

definition url_path :: "string \<Rightarrow> string" where
  "url_path u =
     (let p = fst (split_fragment_query (url_tail u))
      in if url_scheme u \<in> set uses_params \<and> CHR '';'' \<in> set p then fst (splitparams p) else p)"

definition https_scheme :: "string \<Rightarrow> string" where
  "https_scheme s = (if s \<in> set [''http'', ''https''] then ''https'' else s)"

section \<open>Facts about strings and URL parsing\<close>

lemma of_char_lower_upper:
  assumes "65 \<le> (of_char c :: nat)" "(of_char c :: nat) \<le> 90"
  shows "(of_char (char_of (of_char c + 32 :: nat)) :: nat) = of_char c + 32"
proof -
  have "(of_char (char_of (of_char c + 32 :: nat)) :: nat) = (of_char c + 32) mod 256"
    by (rule of_char_of)
  also have "\<dots> = of_char c + 32" using assms by simp
  finally show ?thesis .
qed

lemma lower_char_idem: "lower_char (lower_char c) = lower_char c"
proof (cases "65 \<le> (of_char c :: nat) \<and> (of_char c :: nat) \<le> 90")
  case True
  then have "lower_char c = char_of (of_char c + 32 :: nat)" by (simp add: lower_char_def)
  moreover have "\<not> (of_char (char_of (of_char c + 32 :: nat)) :: nat) \<le> 90"
    using of_char_lower_upper [of c] True by simp
  ultimately show ?thesis by (simp add: lower_char_def Let_def)
next
  case False
  then show ?thesis by (auto simp add: lower_char_def Let_def)
qed

lemma lower_idem: "lower (lower s) = lower s"
  by (simp add: lower_def lower_char_idem)

lemma is_lower_lower: "is_lower (lower s)"
  by (auto simp: is_lower_def lower_def lower_char_idem)

lemma lower_fixed: "is_lower s \<Longrightarrow> lower s = s"
  by (simp add: is_lower_def lower_def map_idI)

lemma set_replace_subset: "set (replace old [] s) \<subseteq> set s"
proof (induction old "[]::string" s rule: replace.induct)
  case (1 old)
  then show ?case by simp
next
  case (2 old c cs)
  then show ?case using set_drop_subset [of "length old - 1" cs] by auto
qed

lemma replace_single: "replace [c] [] s = filter (\<lambda>x. x \<noteq> c) s"
  by (induction s) auto

lemma remove_unsafe_filter: "remove_unsafe s = filter (\<lambda>c. \<not> unsafe_url_byte c) s"
  by (simp add: remove_unsafe_def replace_single unsafe_url_byte_def conj_commute conj_left_commute)

lemma set_prep: "set (prep u) \<subseteq> set u"
  using set_dropWhileD [of _ c0_control_or_space u]
  by (auto simp: prep_def remove_unsafe_filter lstrip_def)

lemma split_scheme_snd: "set (snd (split_scheme d u)) \<subseteq> set u"
  using set_drop_subset [of _ u]
  by (auto simp: split_scheme_def split: option.splits)

lemma split_scheme_fst:
  "fst (split_scheme d u) = d \<or> (\<exists>i. fst (split_scheme d u) = lower (take i u))"
  by (auto simp: split_scheme_def split: option.splits)

lemma splitnetloc_sets:
  "set (fst (splitnetloc u)) \<subseteq> set u" "set (snd (splitnetloc u)) \<subseteq> set u"
  using set_takeWhileD [of _ "\<lambda>c. \<not> netloc_delim c" "drop 2 u"]
        set_dropWhileD [of _ "\<lambda>c. \<not> netloc_delim c" "drop 2 u"] set_drop_subset [of 2 u]
  by (auto simp: splitnetloc_def)

lemma split_fragment_query_set: "set (fst (split_fragment_query u)) \<subseteq> set u"
  unfolding split_fragment_query_def before_char_def
  by (auto simp: Let_def dest!: set_takeWhileD)

lemma split_fragment_query_clean:
  "CHR ''?'' \<notin> set (fst (split_fragment_query u))" "CHR ''#'' \<notin> set (fst (split_fragment_query u))"
  unfolding split_fragment_query_def before_char_def
  by (auto simp: Let_def dest: set_takeWhileD)

lemma splitparams_set: "set (fst (splitparams u)) \<subseteq> set u"
  using set_take_subset [of _ u]
  by (auto simp: splitparams_def split: option.splits)


lemma netloc_ok_Nil: "netloc_ok []"
  by (simp add: netloc_ok_def)

lemma urlparse_stages:
  "urlparse u =
     (if netloc_ok (url_netloc u)
      then Inr \<lparr>scheme = url_scheme u, netloc = url_netloc u, path = url_path u,
               query = fst (snd (split_fragment_query (url_tail u))),
               fragment = snd (snd (split_fragment_query (url_tail u))),
               params = (let p = fst (split_fragment_query (url_tail u))
                         in if url_scheme u \<in> set uses_params \<and> CHR '';'' \<in> set p
                            then snd (splitparams p) else [])\<rparr>
      else Inl ValueError)"
  unfolding urlparse_def urlparse_with_def urlsplit_def url_netloc_def url_tail_def url_path_def
    url_scheme_def url_rest_def prep_def
  by (simp add: Let_def split_beta strip_def rstrip_def lstrip_def remove_unsafe_def netloc_ok_Nil
      del: set_simps)

lemma normalize_url_stages:
  "normalize_url u =
     (if netloc_ok (url_netloc (lower u))
      then Inr (rstrip (\<lambda>c. c = CHR ''/'')
             (https_scheme (url_scheme (lower u)) @ ''://'' @
              replace ''www.'' [] (url_netloc (lower u)) @ url_path (lower u)))
      else Inl ValueError)"
  unfolding normalize_url_def urlparse_stages https_scheme_def
  by (simp add: Let_def)


lemma url_rest_set: "set (url_rest u) \<subseteq> set u"
  using split_scheme_snd [of "[]" "prep u"] set_prep [of u] by (auto simp: url_rest_def)

lemma url_netloc_set: "set (url_netloc u) \<subseteq> set u"
  using splitnetloc_sets(1) [of "url_rest u"] url_rest_set [of u] by (auto simp: url_netloc_def)

lemma url_tail_set: "set (url_tail u) \<subseteq> set u"
  using splitnetloc_sets(2) [of "url_rest u"] url_rest_set [of u] by (auto simp: url_tail_def)

lemma url_path_set: "set (url_path u) \<subseteq> set u"
  using split_fragment_query_set [of "url_tail u"] url_tail_set [of u]
    splitparams_set [of "fst (split_fragment_query (url_tail u))"]
  by (auto simp: url_path_def Let_def)

lemma is_lower_subset: "set t \<subseteq> set s \<Longrightarrow> is_lower s \<Longrightarrow> is_lower t"
  by (auto simp: is_lower_def)

lemma is_lower_append: "is_lower (s @ t) \<longleftrightarrow> is_lower s \<and> is_lower t"
  by (auto simp: is_lower_def)

lemma url_scheme_lower: "is_lower (url_scheme u)"
proof -
  have "is_lower []" by (simp add: is_lower_def)
  then show ?thesis
    using split_scheme_fst [of "[]" "prep u"] is_lower_lower by (auto simp: url_scheme_def)
qed

lemma takeWhile_neq_less: "c \<in> set b \<Longrightarrow> length (takeWhile (\<lambda>x. x \<noteq> c) b) < length b"
  by (induction b) auto

lemma takeWhile_neq_append: "c \<in> set b \<Longrightarrow> takeWhile (\<lambda>x. x \<noteq> c) (b @ r) = takeWhile (\<lambda>x. x \<noteq> c) b"
  by (rule takeWhile_append1) auto

lemma dropWhile_neq_append: "c \<in> set b \<Longrightarrow> dropWhile (\<lambda>x. x \<noteq> c) (b @ r) = dropWhile (\<lambda>x. x \<noteq> c) b @ r"
  by (rule dropWhile_append1) auto

lemma https_scheme_lower: "is_lower s \<Longrightarrow> is_lower (https_scheme s)"
  by (auto simp: https_scheme_def is_lower_def lower_char_def)

lemma rstrip_set: "set (rstrip P s) \<subseteq> set s"
  using set_dropWhileD [of _ P "rev s"] by (auto simp: rstrip_def)

lemma normalize_url_is_lower:
  assumes "normalize_url u = Inr key"
  shows "is_lower key"
proof -
  let ?v = "lower u"
  have v: "is_lower ?v" by (rule is_lower_lower)
  have k: "key = rstrip (\<lambda>c. c = CHR ''/'')
             (https_scheme (url_scheme ?v) @ ''://'' @ replace ''www.'' [] (url_netloc ?v) @ url_path ?v)"
    using assms by (simp add: normalize_url_stages split: if_splits)
  have "is_lower (https_scheme (url_scheme ?v))"
    by (rule https_scheme_lower [OF url_scheme_lower])
  moreover have "is_lower ''://''" by (simp add: is_lower_def lower_char_def)
  moreover have "is_lower (replace ''www.'' [] (url_netloc ?v))"
    using set_replace_subset [of "''www.''" "url_netloc ?v"] url_netloc_set [of ?v] v
    by (meson is_lower_subset subset_trans)
  moreover have "is_lower (url_path ?v)"
    using url_path_set [of ?v] v by (rule is_lower_subset)
  ultimately have "is_lower (https_scheme (url_scheme ?v) @ ''://'' @ replace ''www.'' [] (url_netloc ?v) @ url_path ?v)"
    by (simp only: is_lower_append)
  then show ?thesis unfolding k using rstrip_set is_lower_subset by blast
qed

text \<open>Appending a query string.\<close>

lemma lower_append_query: "lower (b @ CHR ''?'' # q) = lower b @ CHR ''?'' # lower q"
  by (simp add: lower_def lower_char_def)

lemma prep_append_query: "prep (b @ CHR ''?'' # q) = prep b @ CHR ''?'' # remove_unsafe q"
proof -
  have "\<not> c0_control_or_space CHR ''?''" by (simp add: c0_control_or_space_def)
  then have "lstrip c0_control_or_space (b @ CHR ''?'' # q) = lstrip c0_control_or_space b @ CHR ''?'' # q"
    by (simp add: lstrip_def dropWhile_append3)
  then show ?thesis by (simp add: prep_def remove_unsafe_filter unsafe_url_byte_def)
qed

lemma split_scheme_append_query:
  "split_scheme [] (b @ CHR ''?'' # q) =
     (fst (split_scheme [] b), snd (split_scheme [] b) @ CHR ''?'' # q)"
proof (cases "CHR '':'' \<in> set b")
  case True
  then have i: "length (takeWhile (\<lambda>x. x \<noteq> CHR '':'') b) < length b"
    by (rule takeWhile_neq_less)
  have tw: "takeWhile (\<lambda>x. x \<noteq> CHR '':'') (b @ CHR ''?'' # q) = takeWhile (\<lambda>x. x \<noteq> CHR '':'') b"
    using True by (rule takeWhile_neq_append)
  have "b \<noteq> []" using True by auto
  then have hd: "hd (b @ CHR ''?'' # q) = hd b" by simp
  show ?thesis using True i hd tw by (simp add: split_scheme_def find_char_def)
next
  case False
  then have tw: "takeWhile (\<lambda>x. x \<noteq> CHR '':'') (b @ CHR ''?'' # q) = b @ CHR ''?'' # takeWhile (\<lambda>x. x \<noteq> CHR '':'') q"
    by (induction b) auto
  have "\<not> scheme_char CHR ''?''" by (simp add: scheme_char_def is_alpha_def is_digit_def)
  then have "\<not> list_all scheme_char (take (Suc (length b + n)) (b @ CHR ''?'' # q))" for n
    by (auto simp: list_all_iff)
  then show ?thesis using False tw
    by (auto simp: split_scheme_def find_char_def)
qed

lemma url_scheme_append_query: "url_scheme (b @ CHR ''?'' # q) = url_scheme b"
  by (simp add: url_scheme_def prep_append_query split_scheme_append_query)

lemma url_rest_append_query: "url_rest (b @ CHR ''?'' # q) = url_rest b @ CHR ''?'' # remove_unsafe q"
  by (simp add: url_rest_def prep_append_query split_scheme_append_query)

lemma take2_append_query: "take 2 (r @ CHR ''?'' # q) = ''//'' \<longleftrightarrow> take 2 r = ''//''"
proof (cases r)
  case Nil
  then show ?thesis by (simp add: take_Cons')
next
  case (Cons a r')
  then show ?thesis by (cases r') (auto simp: take_Cons')
qed

lemma splitnetloc_append_query:
  assumes "take 2 r = ''//''"
  shows "splitnetloc (r @ CHR ''?'' # q) = (fst (splitnetloc r), snd (splitnetloc r) @ CHR ''?'' # q)"
proof -
  have len: "2 \<le> length r" using assms by (cases r; cases "tl r") (auto simp: take_Cons')
  then have d: "drop 2 (r @ CHR ''?'' # q) = drop 2 r @ CHR ''?'' # q" by simp
  have nd: "\<not> \<not> netloc_delim CHR ''?''" by (simp add: netloc_delim_def)
  have "takeWhile (\<lambda>c. \<not> netloc_delim c) (xs @ CHR ''?'' # q) = takeWhile (\<lambda>c. \<not> netloc_delim c) xs"
       "dropWhile (\<lambda>c. \<not> netloc_delim c) (xs @ CHR ''?'' # q) = dropWhile (\<lambda>c. \<not> netloc_delim c) xs @ CHR ''?'' # q" for xs
    using nd by (induction xs) auto
  then show ?thesis unfolding splitnetloc_def d by (simp only: fst_conv snd_conv)
qed

lemma url_netloc_append_query: "url_netloc (b @ CHR ''?'' # q) = url_netloc b"
proof (cases "take 2 (url_rest b) = ''//''")
  case True
  then show ?thesis
    unfolding url_netloc_def url_rest_append_query
    by (simp only: take2_append_query splitnetloc_append_query [OF True] fst_conv if_True)
next
  case False
  then show ?thesis
    unfolding url_netloc_def url_rest_append_query
    by (simp only: take2_append_query if_False)
qed

lemma url_tail_append_query: "url_tail (b @ CHR ''?'' # q) = url_tail b @ CHR ''?'' # remove_unsafe q"
proof (cases "take 2 (url_rest b) = ''//''")
  case True
  then show ?thesis
    unfolding url_tail_def url_rest_append_query
    by (simp add: take2_append_query splitnetloc_append_query [OF True] del: take_append)
next
  case False
  then show ?thesis
    unfolding url_tail_def url_rest_append_query
    by (simp only: take2_append_query if_False)
qed

lemma path_append_query:
  "fst (split_fragment_query (t @ CHR ''?'' # q)) = fst (split_fragment_query t)"
proof (cases "CHR ''#'' \<in> set t")
  case True
  then show ?thesis
    by (simp add: split_fragment_query_def before_char_def takeWhile_neq_append split_beta)
next
  case False
  then have 1: "takeWhile (\<lambda>x. x \<noteq> CHR ''#'') (t @ CHR ''?'' # q) = t @ CHR ''?'' # takeWhile (\<lambda>x. x \<noteq> CHR ''#'') q"
    by (induction t) auto
  have 2: "takeWhile (\<lambda>x. x \<noteq> CHR ''?'') (t @ CHR ''?'' # r) = takeWhile (\<lambda>x. x \<noteq> CHR ''?'') t" for r
    by (induction t) auto
  have 3: "CHR ''?'' \<notin> set t \<Longrightarrow> takeWhile (\<lambda>x. x \<noteq> CHR ''?'') t = t"
    by (induction t) auto
  show ?thesis using False
    by (auto simp: split_fragment_query_def before_char_def split_beta 1 2 3)
qed

lemma url_path_append_query: "url_path (b @ CHR ''?'' # q) = url_path b"
  by (simp add: url_path_def url_tail_append_query url_scheme_append_query path_append_query)

lemma normalize_url_append_query: "normalize_url (b @ CHR ''?'' # q) = normalize_url b"
  by (simp add: normalize_url_stages lower_append_query url_netloc_append_query
      url_scheme_append_query url_path_append_query)




lemma rstrip_Nil_iff: "rstrip Q ys = [] \<longleftrightarrow> (\<forall>x\<in>set ys. Q x)"
  by (auto simp: rstrip_def dropWhile_eq_Nil_conv)

lemma rstrip_append:
  "rstrip Q (xs @ ys) = (if rstrip Q ys = [] then rstrip Q xs else xs @ rstrip Q ys)"
  by (auto simp: rstrip_def dropWhile_append dropWhile_eq_Nil_conv)

lemma rstrip_id: "xs \<noteq> [] \<Longrightarrow> \<not> Q (last xs) \<Longrightarrow> rstrip Q xs = xs"
  by (cases xs rule: rev_cases) (auto simp: rstrip_def)

lemma rstrip_last: "rstrip Q xs \<noteq> [] \<Longrightarrow> \<not> Q (last (rstrip Q xs))"
  unfolding rstrip_def
  by (metis dropWhile_eq_Nil_conv hd_dropWhile last_rev rev_is_Nil_conv)

lemma rstrip_prefix: "prefix (rstrip Q xs) xs"
proof -
  have "suffix (dropWhile Q (rev xs)) (rev xs)" by (rule suffix_dropWhile)
  then show ?thesis by (simp add: rstrip_def suffix_to_prefix)
qed

lemma rstrip_hd:
  assumes "rstrip Q xs \<noteq> []"
  shows "hd (rstrip Q xs) = hd xs"
proof -
  from rstrip_prefix [of Q xs] obtain zs where "xs = rstrip Q xs @ zs"
    by (auto simp: prefix_def)
  then have "hd xs = hd (rstrip Q xs @ zs)" by simp
  also have "\<dots> = hd (rstrip Q xs)" using assms by simp
  finally show ?thesis by simp
qed

lemma rstrip_no_member: "\<forall>x\<in>set xs. \<not> Q x \<Longrightarrow> rstrip Q xs = xs"
  by (cases xs rule: rev_cases) (auto simp: rstrip_def)

lemma scheme_char_lower: "scheme_char c \<Longrightarrow> scheme_char (lower_char c)"
proof (cases "65 \<le> (of_char c :: nat) \<and> (of_char c :: nat) \<le> 90")
  case True
  then have "(of_char (lower_char c) :: nat) = of_char c + 32"
    using of_char_lower_upper [of c] by (simp add: lower_char_def)
  with True show ?thesis by (simp add: scheme_char_def is_alpha_def)
next
  case False
  then have "lower_char c = c" by (auto simp: lower_char_def)
  then show "scheme_char c \<Longrightarrow> ?thesis" by simp
qed

lemma is_alpha_lower: "is_alpha c \<Longrightarrow> is_alpha (lower_char c)"
proof (cases "65 \<le> (of_char c :: nat) \<and> (of_char c :: nat) \<le> 90")
  case True
  then have "(of_char (lower_char c) :: nat) = of_char c + 32"
    using of_char_lower_upper [of c] by (simp add: lower_char_def)
  with True show ?thesis by (simp add: is_alpha_def)
next
  case False
  then have "lower_char c = c" by (auto simp: lower_char_def)
  then show "is_alpha c \<Longrightarrow> ?thesis" by simp
qed

lemma url_scheme_shape:
  assumes "url_scheme u \<noteq> []"
  shows "list_all scheme_char (url_scheme u)" "is_alpha (hd (url_scheme u))"
proof -
  let ?B = "prep u"
  from assms obtain i where i: "0 < i" "is_alpha (hd ?B)" "list_all scheme_char (take i ?B)"
    and s: "url_scheme u = lower (take i ?B)"
    by (auto simp: url_scheme_def split_scheme_def split: option.splits if_splits)
  from s assms have ne: "take i ?B \<noteq> []" by (auto simp: lower_def)
  show "list_all scheme_char (url_scheme u)"
    using i(3) by (auto simp: s lower_def list_all_iff scheme_char_lower)
  have "hd (lower (take i ?B)) = lower_char (hd ?B)"
    using ne i(1) by (cases ?B) (auto simp: lower_def take_Cons')
  then show "is_alpha (hd (url_scheme u))" using i(2) by (simp add: s is_alpha_lower)
qed

lemma https_scheme_shape:
  assumes "s \<noteq> []" "list_all scheme_char s" "is_alpha (hd s)"
  shows "https_scheme s \<noteq> []" "list_all scheme_char (https_scheme s)" "is_alpha (hd (https_scheme s))"
    "https_scheme (https_scheme s) = https_scheme s"
  using assms by (auto simp: https_scheme_def scheme_char_def is_alpha_def)

lemma prep_clean: "\<not> unsafe_url_byte c" if "c \<in> set (prep u)"
  using that by (auto simp: prep_def remove_unsafe_filter)

lemma url_netloc_no_delim: "c \<in> set (url_netloc u) \<Longrightarrow> \<not> netloc_delim c"
  by (auto simp: url_netloc_def splitnetloc_def dest: set_takeWhileD split: if_splits)

lemma url_path_clean: "CHR ''?'' \<notin> set (url_path u)" "CHR ''#'' \<notin> set (url_path u)"
  using split_fragment_query_clean [of "url_tail u"]
    splitparams_set [of "fst (split_fragment_query (url_tail u))"]
  by (auto simp: url_path_def Let_def)

lemma split_scheme_sub_prep: "set (snd (split_scheme [] (prep u))) \<subseteq> set (prep u)"
  by (rule split_scheme_snd)

lemma url_parts_safe:
  "c \<in> set (url_netloc u) \<Longrightarrow> \<not> unsafe_url_byte c"
  "c \<in> set (url_path u) \<Longrightarrow> \<not> unsafe_url_byte c"
proof -
  have rest: "set (url_rest u) \<subseteq> set (prep u)"
    unfolding url_rest_def by (rule split_scheme_snd)
  have nl: "set (url_netloc u) \<subseteq> set (url_rest u)"
    using splitnetloc_sets(1) [of "url_rest u"] by (auto simp: url_netloc_def)
  have tl: "set (url_tail u) \<subseteq> set (url_rest u)"
    using splitnetloc_sets(2) [of "url_rest u"] by (auto simp: url_tail_def)
  have p: "set (url_path u) \<subseteq> set (url_tail u)"
    using split_fragment_query_set [of "url_tail u"]
      splitparams_set [of "fst (split_fragment_query (url_tail u))"]
    by (auto simp: url_path_def Let_def)
  show "c \<in> set (url_netloc u) \<Longrightarrow> \<not> unsafe_url_byte c"
    using rest nl prep_clean by blast
  show "c \<in> set (url_path u) \<Longrightarrow> \<not> unsafe_url_byte c"
    using rest tl p prep_clean by blast
qed

text \<open>Parsing a key again.\<close>

lemma reparse_key:
  fixes s nl p :: string
  assumes s: "s \<noteq> []" "list_all scheme_char s" "is_alpha (hd s)" "is_lower s"
    and nl: "\<forall>c\<in>set nl. \<not> netloc_delim c \<and> \<not> unsafe_url_byte c" "is_lower nl"
    and p: "p = [] \<or> hd p = CHR ''/''" "\<forall>c\<in>set p. \<not> unsafe_url_byte c"
      "CHR ''?'' \<notin> set p" "CHR ''#'' \<notin> set p" "CHR '';'' \<notin> set p" "is_lower p"
    and key: "key = rstrip (\<lambda>c. c = CHR ''/'') (s @ ''://'' @ nl @ p)"
  shows "lower key = key" "url_scheme key = s" "url_netloc key = nl"
    "url_path key = rstrip (\<lambda>c. c = CHR ''/'') p"
    "rstrip (\<lambda>c. c = CHR ''/'') (s @ ''://'' @ nl @ rstrip (\<lambda>c. c = CHR ''/'') p) = key"
proof -
  let ?sl = "\<lambda>c. c = CHR ''/''"
  define p' where "p' = rstrip ?sl p"
  have nl_slash: "CHR ''/'' \<notin> set nl" using nl(1) by (auto simp: netloc_delim_def)
  have nl_r: "rstrip ?sl nl = nl"
    using nl_slash by (intro rstrip_no_member) auto
  have r1: "rstrip ?sl (nl @ p) = nl @ p'"
    by (simp add: rstrip_append p'_def nl_r)
  have scol: "CHR '':'' \<notin> set s" "CHR ''/'' \<notin> set s"
    using s(2) by (auto simp: list_all_iff scheme_char_def is_alpha_def is_digit_def)
  have strip_key: "rstrip ?sl (s @ ''://'' @ t) = (if r = [] then s @ '':'' else s @ ''://'' @ r)"
    if t: "rstrip ?sl t = r" for t r
  proof (cases "r = []")
    case True
    have c: "rstrip ?sl (s @ '':'') = s @ '':''" by (rule rstrip_id) auto
    have "rstrip ?sl (''//'' @ t) = []"
      using t True by (simp add: rstrip_Nil_iff)
    with rstrip_append [of ?sl "s @ '':''" "''//'' @ t"]
    have "rstrip ?sl ((s @ '':'') @ (''//'' @ t)) = rstrip ?sl (s @ '':'')"
      by simp
    with c True show ?thesis by simp
  next
    case False
    with rstrip_append [of ?sl "s @ ''://''" t] t
    have "rstrip ?sl ((s @ ''://'') @ t) = (s @ ''://'') @ r"
      by simp
    with False show ?thesis by simp
  qed
  have k: "key = (if nl @ p' = [] then s @ '':'' else s @ ''://'' @ nl @ p')"
    unfolding key using strip_key [OF r1] by simp
  show lk: "lower key = key"
  proof -
    have "is_lower (s @ ''://'' @ nl @ p)"
      using s(4) nl(2) p(6) by (auto simp: is_lower_def lower_char_def)
    then have "is_lower key" unfolding key using rstrip_set is_lower_subset by blast
    then show ?thesis by (rule lower_fixed)
  qed
  have p'_sub: "set p' \<subseteq> set p" unfolding p'_def by (rule rstrip_set)
  have key_safe: "\<forall>c\<in>set key. \<not> unsafe_url_byte c"
  proof -
    have "\<forall>c\<in>set s. \<not> unsafe_url_byte c"
      using s(2) by (auto simp: list_all_iff scheme_char_def is_alpha_def is_digit_def unsafe_url_byte_def)
    then have "\<forall>c\<in>set (s @ ''://'' @ nl @ p). \<not> unsafe_url_byte c"
      using nl(1) p(2) by (simp add: unsafe_url_byte_def ball_Un)
    then show ?thesis unfolding key using rstrip_set by blast
  qed
  have hd_key: "key \<noteq> []" "hd key = hd s" using s(1) by (auto simp: k)
  have "\<not> c0_control_or_space (hd s)"
    using s(3) by (auto simp: is_alpha_def c0_control_or_space_def Let_def)
  then have "lstrip c0_control_or_space key = key"
    using hd_key by (cases key) (auto simp: lstrip_def)
  then have prep: "prep key = key"
    using key_safe by (simp add: prep_def remove_unsafe_filter)
  obtain rest where rest: "key = s @ CHR '':'' # rest"
    and rest_def: "rest = (if nl @ p' = [] then [] else ''//'' @ nl @ p')"
    by (simp add: k)
  have tw: "takeWhile (\<lambda>x. x \<noteq> CHR '':'') key = s"
    unfolding rest using scol(1) by (induction s) auto
  have "lower s = s" using s(4) by (rule lower_fixed)
  then have ss: "split_scheme [] key = (s, rest)"
    using s hd_key tw by (simp add: split_scheme_def find_char_def rest)
  show "url_scheme key = s" by (simp add: url_scheme_def prep ss)
  have ur: "url_rest key = rest" by (simp add: url_rest_def prep ss)
  have p'_hd: "p' = [] \<or> hd p' = CHR ''/''"
  proof (cases "p' = []")
    case True
    then show ?thesis by simp
  next
    case False
    then have "p \<noteq> []" by (auto simp: p'_def rstrip_def)
    with p(1) have "hd p = CHR ''/''" by simp
    moreover have "hd p' = hd p" using False unfolding p'_def by (rule rstrip_hd)
    ultimately show ?thesis by simp
  qed
  have tw2: "takeWhile (\<lambda>c. \<not> netloc_delim c) (nl @ p') = nl"
    "dropWhile (\<lambda>c. \<not> netloc_delim c) (nl @ p') = p'"
    using nl(1) p'_hd by (cases p'; auto simp: netloc_delim_def takeWhile_append dropWhile_append)+
  have nlp: "url_netloc key = nl \<and> url_tail key = p'"
    using tw2 by (auto simp: url_netloc_def url_tail_def ur rest_def splitnetloc_def)
  then show "url_netloc key = nl" by simp
  have "fst (split_fragment_query p') = p'"
    using p(3,4) p'_sub by (auto simp: split_fragment_query_def)
  moreover have "CHR '';'' \<notin> set p'" using p(5) p'_sub by auto
  ultimately show "url_path key = rstrip ?sl p"
    using nlp by (simp add: url_path_def p'_def)
  have "rstrip ?sl p' = p'"
    unfolding p'_def by (cases "rstrip ?sl p = []") (auto simp: rstrip_def intro: rstrip_id rstrip_last [unfolded rstrip_def])
  then have "rstrip ?sl (nl @ p') = nl @ p'"
    by (simp add: rstrip_append nl_r)
  from strip_key [OF this]
  have "rstrip ?sl (s @ ''://'' @ nl @ p') = (if nl @ p' = [] then s @ '':'' else s @ ''://'' @ nl @ p')"
    by simp
  then show "rstrip ?sl (s @ ''://'' @ nl @ rstrip ?sl p) = key"
    by (simp add: k p'_def)
qed



section \<open>Claims\<close>



text \<open>
  C2, as stated, fails: the path of \<open>https://example.com/Path\<close> is \<open>/Path\<close>, and the key ends
  in \<open>/path\<close>, because \<open>_normalize_url\<close> lower-cases the whole URL before it parses it.
\<close>

theorem path_case_counterexample:
  "urlparse ''https://example.com/Path'' =
     Inr \<lparr>scheme = ''https'', netloc = ''example.com'', path = ''/Path'', query = [],
          fragment = [], params = []\<rparr> \<and>
   normalize_url ''https://example.com/Path'' = Inr ''https://example.com/path'' \<and>
   urlparse ''https://example.com/path'' =
     Inr \<lparr>scheme = ''https'', netloc = ''example.com'', path = ''/path'', query = [],
          fragment = [], params = []\<rparr>"
  by code_simp

text \<open>
  C2, amended. For every ASCII URL, normalisation lower-cases the whole URL, path included:
  the key of \<open>u\<close> is the key of \<open>lower u\<close> and holds no upper-case letter. In particular
  \<open>HTTP://WWW.Example.com/Path/\<close> and \<open>https://example.com/Path\<close> both get the key
  \<open>https://example.com/path\<close>.
\<close>

theorem normalize_lowercases_url:
  "isascii u \<Longrightarrow>
     normalize_url (lower u) = normalize_url u \<and>
     (\<forall>key. normalize_url u = Inr key \<longrightarrow> is_lower key) \<and>
     normalize_url ''HTTP://WWW.Example.com/Path/'' = Inr ''https://example.com/path'' \<and>
     normalize_url ''https://example.com/Path'' = Inr ''https://example.com/path''"
proof (intro conjI allI impI)
  show "normalize_url (lower u) = normalize_url u"
    by (simp add: normalize_url_def lower_idem)
  show "is_lower key" if "normalize_url u = Inr key" for key
    using that by (rule normalize_url_is_lower)
  show "normalize_url ''HTTP://WWW.Example.com/Path/'' = Inr ''https://example.com/path''"
    by code_simp
  show "normalize_url ''https://example.com/Path'' = Inr ''https://example.com/path''"
    by code_simp
qed

theorem normalize_lowercases_url_witness:
  "isascii ''https://Example.COM/About/Team'' \<and>
   normalize_url ''https://example.com/about/team'' = normalize_url ''https://Example.COM/About/Team'' \<and>
   normalize_url ''https://Example.COM/About/Team'' = Inr ''https://example.com/about/team'' \<and>
   is_lower ''https://example.com/about/team''"
proof -
  have a: "isascii ''https://Example.COM/About/Team''" by code_simp
  have l: "lower ''https://Example.COM/About/Team'' = ''https://example.com/about/team''"
    by code_simp
  have k: "normalize_url ''https://Example.COM/About/Team'' = Inr ''https://example.com/about/team''"
    by code_simp
  from normalize_lowercases_url [OF a] a k l show ?thesis by simp
qed

text \<open>
  C3, as stated, fails: two URLs that differ only in a tracking parameter get the same key,
  because the key is built from scheme, authority and path and leaves the query out.
\<close>

theorem query_string_counterexample:
  "normalize_url ''https://example.com/pricing?utm_source=mail'' = Inr ''https://example.com/pricing'' \<and>
   normalize_url ''https://example.com/pricing?utm_source=ad'' = Inr ''https://example.com/pricing'' \<and>
   check_company_exists
     \<lparr>rows = [[(''website_url'', JStr ''https://example.com/pricing'')]], fault = None\<rparr>
     ''https://example.com/pricing?utm_source=ad'' = True"
  by code_simp

text \<open>
  C3, amended. For every ASCII URL, appending a query string to it does not change the key;
  so two URLs that differ only in their query string have the same key and get the same
  answer from the existence check.
\<close>

theorem query_string_ignored:
  "isascii (b @ CHR ''?'' # q1) \<Longrightarrow> isascii (b @ CHR ''?'' # q2) \<Longrightarrow>
     normalize_url (b @ CHR ''?'' # q1) = normalize_url b \<and>
     normalize_url (b @ CHR ''?'' # q1) = normalize_url (b @ CHR ''?'' # q2) \<and>
     check_company_exists st (b @ CHR ''?'' # q1) = check_company_exists st (b @ CHR ''?'' # q2)"
  by (simp add: normalize_url_append_query check_company_exists_def)

theorem query_string_ignored_witness:
  "isascii ''https://example.com/pricing?utm_source=mail'' \<and>
   isascii ''https://example.com/pricing?utm_source=ad'' \<and>
   normalize_url ''https://example.com/pricing?utm_source=mail'' = normalize_url ''https://example.com/pricing'' \<and>
   normalize_url ''https://example.com/pricing?utm_source=mail'' =
     normalize_url ''https://example.com/pricing?utm_source=ad''"
proof -
  have e1: "''https://example.com/pricing'' @ CHR ''?'' # ''utm_source=mail'' =
      ''https://example.com/pricing?utm_source=mail''" by simp
  have e2: "''https://example.com/pricing'' @ CHR ''?'' # ''utm_source=ad'' =
      ''https://example.com/pricing?utm_source=ad''" by simp
  have a: "isascii (''https://example.com/pricing'' @ CHR ''?'' # ''utm_source=mail'')" by code_simp
  have b: "isascii (''https://example.com/pricing'' @ CHR ''?'' # ''utm_source=ad'')" by code_simp
  from query_string_ignored [OF a b, unfolded e1 e2] a [unfolded e1] b [unfolded e2]
  show ?thesis by blast
qed


text \<open>
  C10, as stated, fails: a URL without a scheme gets a key that starts with \<open>://\<close>, and
  normalising that key prefixes it with \<open>://\<close> again.
\<close>

theorem normalize_not_idempotent_counterexample:
  "normalize_url ''example.com'' = Inr ''://example.com'' \<and>
   normalize_url ''://example.com'' = Inr ''://://example.com''"
  by code_simp

text \<open>
  C10, amended. Normalisation is idempotent on every ASCII URL whose lower-cased form parses
  with a scheme, with a path that is empty or starts with \<open>/\<close> and holds no \<open>;\<close>, and with an
  authority that, once \<open>www.\<close> is removed, holds no further \<open>www.\<close> and passes the bracket
  checks of \<open>urlsplit\<close>: the key of such a URL is its own key.
\<close>

theorem normalize_idempotent_on_stable_urls:
  assumes "isascii u"
    and "urlparse (lower u) = Inr p"
    and "scheme p \<noteq> []"
    and "path p = [] \<or> hd (path p) = CHR ''/''"
    and "CHR '';'' \<notin> set (path p)"
    and "replace ''www.'' [] (replace ''www.'' [] (netloc p)) = replace ''www.'' [] (netloc p)"
    and "netloc_ok (replace ''www.'' [] (netloc p))"
  shows "\<exists>key. normalize_url u = Inr key \<and> normalize_url key = Inr key"
proof -
  let ?v = "lower u"
  let ?sl = "\<lambda>c. c = CHR ''/''"
  define s where "s = https_scheme (url_scheme ?v)"
  define nl where "nl = replace ''www.'' [] (url_netloc ?v)"
  define key where "key = rstrip ?sl (s @ ''://'' @ nl @ url_path ?v)"
  from assms(2) have ok: "netloc_ok (url_netloc ?v)"
    and p: "scheme p = url_scheme ?v" "netloc p = url_netloc ?v" "path p = url_path ?v"
    by (auto simp: urlparse_stages split: if_splits)
  have v: "is_lower ?v" by (rule is_lower_lower)
  have sch: "url_scheme ?v \<noteq> []" using assms(3) p by simp
  have s: "s \<noteq> []" "list_all scheme_char s" "is_alpha (hd s)" "is_lower s" "https_scheme s = s"
    unfolding s_def
    using https_scheme_shape [OF sch url_scheme_shape [OF sch]] https_scheme_lower [OF url_scheme_lower]
    by auto
  have nl_sub: "set nl \<subseteq> set (url_netloc ?v)" unfolding nl_def by (rule set_replace_subset)
  have nl: "\<forall>c\<in>set nl. \<not> netloc_delim c \<and> \<not> unsafe_url_byte c" "is_lower nl"
    using nl_sub url_netloc_no_delim [of _ ?v] url_parts_safe(1) [of _ ?v]
      is_lower_subset [OF subset_trans [OF nl_sub url_netloc_set] v]
    by auto
  have pth: "url_path ?v = [] \<or> hd (url_path ?v) = CHR ''/''"
    "\<forall>c\<in>set (url_path ?v). \<not> unsafe_url_byte c"
    "CHR ''?'' \<notin> set (url_path ?v)" "CHR ''#'' \<notin> set (url_path ?v)"
    "CHR '';'' \<notin> set (url_path ?v)" "is_lower (url_path ?v)"
    using assms(4,5) p url_parts_safe(2) [of _ ?v] url_path_clean [of ?v]
      is_lower_subset [OF url_path_set v]
    by auto
  note rk = reparse_key [OF s(1-4) nl pth key_def]
  have first: "normalize_url u = Inr key"
    using ok by (simp add: normalize_url_stages key_def s_def nl_def)
  have "netloc_ok (url_netloc (lower key))"
    using assms(7) p(2) rk(1,3) by (simp add: nl_def)
  moreover have "replace ''www.'' [] nl = nl" using assms(6) p(2) by (simp add: nl_def)
  ultimately have "normalize_url key = Inr key"
    using rk s(5) by (simp add: normalize_url_stages)
  with first show ?thesis by blast
qed

theorem normalize_idempotent_on_stable_urls_witness:
  "isascii ''HTTP://WWW.Example.com/Path/'' \<and>
   urlparse (lower ''HTTP://WWW.Example.com/Path/'') =
     Inr \<lparr>scheme = ''http'', netloc = ''www.example.com'', path = ''/path/'', query = [],
          fragment = [], params = []\<rparr> \<and>
   replace ''www.'' [] ''www.example.com'' = ''example.com'' \<and>
   normalize_url ''HTTP://WWW.Example.com/Path/'' = Inr ''https://example.com/path'' \<and>
   normalize_url ''https://example.com/path'' = Inr ''https://example.com/path''"
proof -
  let ?p = "\<lparr>scheme = ''http'', netloc = ''www.example.com'', path = ''/path/'', query = [],
          fragment = [], params = []\<rparr>"
  have a: "isascii ''HTTP://WWW.Example.com/Path/''" by code_simp
  have b: "urlparse (lower ''HTTP://WWW.Example.com/Path/'') = Inr ?p" by code_simp
  have c: "scheme ?p \<noteq> []" by simp
  have d: "path ?p = [] \<or> hd (path ?p) = CHR ''/''" by simp
  have e: "CHR '';'' \<notin> set (path ?p)" by simp
  have r: "replace ''www.'' [] ''www.example.com'' = ''example.com''" by code_simp
  have r2: "replace ''www.'' [] ''example.com'' = ''example.com''" by code_simp
  have f: "replace ''www.'' [] (replace ''www.'' [] (netloc ?p)) = replace ''www.'' [] (netloc ?p)"
    by (simp only: split_result.select_convs r r2)
  have g: "netloc_ok (replace ''www.'' [] (netloc ?p))"
    unfolding split_result.select_convs r by code_simp
  have k: "normalize_url ''HTTP://WWW.Example.com/Path/'' = Inr ''https://example.com/path''"
    by code_simp
  from normalize_idempotent_on_stable_urls [OF a b c d e f g] k
  have "normalize_url ''https://example.com/path'' = Inr ''https://example.com/path''"
    by auto
  with a b r k show ?thesis by blast
qed


end
